theory Spec2Isabelle
  imports Complex_Main
begin

section \<open>Python values used by the address book\<close>

text \<open>
  Exceptions are values. Strings are lists of 8-bit characters, so the model covers the
  code points 0..255; there the only decimal digits are \<open>0\<close>..\<open>9\<close>. A value that is
  either \<open>None\<close> or a \<open>str\<close> is a \<open>string option\<close>.
\<close>

datatype error =
    ValueError string
  | KeyError string
  | AttributeError string
  | FileNotFoundError string

type_synonym pyval = "string option"

fun str_error :: "error \<Rightarrow> string" where
  "str_error (ValueError m) = m"
| "str_error (KeyError m) = m"
| "str_error (AttributeError m) = m"
| "str_error (FileNotFoundError m) = m"

definition isspace :: "char \<Rightarrow> bool" where
  "isspace c = ((of_char c :: nat) \<in> {9, 10, 11, 12, 13, 28, 29, 30, 31, 32, 133, 160})"

definition isdigit :: "char \<Rightarrow> bool" where
  "isdigit c = (48 \<le> (of_char c :: nat) \<and> (of_char c :: nat) \<le> 57)"

definition strip :: "string \<Rightarrow> string" where
  "strip s = rev (dropWhile isspace (rev (dropWhile isspace s)))"

fun py_str :: "pyval \<Rightarrow> string" where
  "py_str None = ''None''"
| "py_str (Some s) = s"

definition lstrip :: "char \<Rightarrow> string \<Rightarrow> string" where
  "lstrip c s = dropWhile (\<lambda>x. x = c) s"

text \<open>\<open>str(n)\<close> for a natural number, and \<open>int(s)\<close> for a string of decimal digits.\<close>

fun str_nat :: "nat \<Rightarrow> string" where
  "str_nat n =
     (if n < 10 then [char_of (48 + n)]
      else str_nat (n div 10) @ [char_of (48 + n mod 10)])"

declare str_nat.simps [simp del]

definition str_int :: "int \<Rightarrow> string" where
  "str_int i = (if i < 0 then CHR ''-'' # str_nat (nat (- i)) else str_nat (nat i))"

definition int_of_digits :: "string \<Rightarrow> int" where
  "int_of_digits s = foldl (\<lambda>a c. 10 * a + (int (of_char c) - 48)) 0 s"

text \<open>
  Without \<open>re.MULTILINE\<close>, \<open>$\<close> matches at the end of the string and also just before
  a newline that ends the string.
\<close>

definition before_dollar :: "string \<Rightarrow> string" where
  "before_dollar s = (if s \<noteq> [] \<and> last s = CHR 0x0A then butlast s else s)"

section \<open>Calendar dates\<close>

text \<open>
  The part of \<open>datetime\<close> the program uses: construction from year, month and day with
  its range checks, comparison, subtraction and the \<open>days\<close> of the difference (the
  floor of the difference in whole days, as \<open>timedelta\<close> normalises it). The current
  time \<open>datetime.now()\<close> is a parameter \<open>now\<close> of every function that reads it.
\<close>

record datetime =
  year :: int
  month :: int
  day :: int
  hour :: int
  minute :: int
  second :: int
  microsecond :: int

definition is_leap :: "int \<Rightarrow> bool" where
  "is_leap y = (y mod 4 = 0 \<and> (y mod 100 \<noteq> 0 \<or> y mod 400 = 0))"

definition days_in_month :: "int \<Rightarrow> int \<Rightarrow> int" where
  "days_in_month y m =
     (if m = 2 then (if is_leap y then 29 else 28)
      else if m = 4 \<or> m = 6 \<or> m = 9 \<or> m = 11 then 30 else 31)"

definition days_before_year :: "int \<Rightarrow> int" where
  "days_before_year y = (y - 1) * 365 + (y - 1) div 4 - (y - 1) div 100 + (y - 1) div 400"

definition days_before_month :: "int \<Rightarrow> int \<Rightarrow> int" where
  "days_before_month y m =
     [0, 31, 59, 90, 120, 151, 181, 212, 243, 273, 304, 334] ! nat (m - 1)
       + (if m > 2 \<and> is_leap y then 1 else 0)"

definition toordinal :: "datetime \<Rightarrow> int" where
  "toordinal d = days_before_year (year d) + days_before_month (year d) (month d) + day d"

definition datetime_new :: "int \<Rightarrow> int \<Rightarrow> int \<Rightarrow> error + datetime" where
  "datetime_new y m d =
     (if y < 1 \<or> 9999 < y then Inl (ValueError (''year '' @ str_int y @ '' is out of range''))
      else if m < 1 \<or> 12 < m then Inl (ValueError ''month must be in 1..12'')
      else if d < 1 \<or> days_in_month y m < d then Inl (ValueError ''day is out of range for month'')
      else Inr \<lparr>year = y, month = m, day = d, hour = 0, minute = 0, second = 0, microsecond = 0\<rparr>)"

definition dt_gt :: "datetime \<Rightarrow> datetime \<Rightarrow> bool" where
  "dt_gt a b =
     (year b < year a \<or> (year a = year b \<and>
     (month b < month a \<or> (month a = month b \<and>
     (day b < day a \<or> (day a = day b \<and>
     (hour b < hour a \<or> (hour a = hour b \<and>
     (minute b < minute a \<or> (minute a = minute b \<and>
     (second b < second a \<or> (second a = second b \<and>
      microsecond b < microsecond a))))))))))))"

definition to_microseconds :: "datetime \<Rightarrow> int" where
  "to_microseconds d =
     ((toordinal d * 24 + hour d) * 60 + minute d) * 60000000 + second d * 1000000 + microsecond d"

text \<open>\<open>(a - b).days\<close>\<close>

definition days_between :: "datetime \<Rightarrow> datetime \<Rightarrow> int" where
  "days_between a b = (to_microseconds a - to_microseconds b) div 86400000000"

text \<open>
  \<open>datetime.fromisoformat\<close> on the strings the birthday pattern lets through: the
  ten-character form \<open>YYYY-MM-DD\<close> gives midnight of that day when the date exists; every
  other string is refused with a \<open>ValueError\<close>.
\<close>

definition fromisoformat :: "string \<Rightarrow> error + datetime" where
  "fromisoformat s =
     (if length s = 10 \<and> list_all isdigit (take 4 s) \<and> s ! 4 = CHR ''-''
         \<and> list_all isdigit (take 2 (drop 5 s)) \<and> s ! 7 = CHR ''-''
         \<and> list_all isdigit (drop 8 s)
      then datetime_new (int_of_digits (take 4 s)) (int_of_digits (take 2 (drop 5 s)))
             (int_of_digits (drop 8 s))
      else Inl (ValueError (''Invalid isoformat string: '' @ [CHR 0x27] @ s @ [CHR 0x27])))"

section \<open>Validated fields\<close>

text \<open>
  Each field keeps the value it was last assigned. A setter returns the exception it
  raised (if any) together with the field as the call leaves it; \<open>__init__\<close> runs the
  setter on a fresh object, whose value (not yet assigned) is written \<open>None\<close>, and a
  raise there means no object is built.
\<close>

subsection \<open>NameField\<close>

record NameField =
  name_value :: pyval

definition validate_name :: "pyval \<Rightarrow> error + bool" where
  "validate_name new_value =
     (case new_value of
        None \<Rightarrow> Inl (ValueError ''Name cannot be None'')
      | Some v \<Rightarrow>
          if strip v = [] then Inl (ValueError ''Name cannot be empty or whitespaces'')
          else Inr True)"

definition NameField_set_value :: "pyval \<Rightarrow> NameField \<Rightarrow> error option \<times> NameField" where
  "NameField_set_value new_value f =
     (case validate_name new_value of
        Inl e \<Rightarrow> (Some e, f)
      | Inr ok \<Rightarrow> (None, if ok then f\<lparr>name_value := new_value\<rparr> else f))"

definition NameField_init :: "pyval \<Rightarrow> error + NameField" where
  "NameField_init n =
     (case NameField_set_value n \<lparr>name_value = None\<rparr> of
        (Some e, f) \<Rightarrow> Inl e
      | (None, f) \<Rightarrow> Inr f)"

subsection \<open>PhoneField\<close>

record PhoneField =
  phone_value :: pyval

text \<open>The pattern \<open>^\+?[\d]{10,14}$\<close>.\<close>

definition phone_re :: "string \<Rightarrow> bool" where
  "phone_re s =
     (let t = (if s \<noteq> [] \<and> hd s = CHR ''+'' then tl s else s);
          u = before_dollar t
      in 10 \<le> length u \<and> length u \<le> 14 \<and> list_all isdigit u)"

definition validate_phone :: "pyval \<Rightarrow> error + bool" where
  "validate_phone v =
     (case v of
        None \<Rightarrow> Inl (ValueError ''Phone cannot be None'')
      | Some s \<Rightarrow>
          if strip s = [] then Inl (ValueError ''Phone cannot be empty or whitespaces'')
          else if phone_re s then Inr True
          else Inl (ValueError ''Phone is not correct''))"

definition PhoneField_set_value :: "pyval \<Rightarrow> PhoneField \<Rightarrow> error option \<times> PhoneField" where
  "PhoneField_set_value new_value f =
     (case validate_phone new_value of
        Inl e \<Rightarrow> (Some e, f)
      | Inr ok \<Rightarrow> (None, if ok then f\<lparr>phone_value := new_value\<rparr> else f))"

definition PhoneField_init :: "pyval \<Rightarrow> error + PhoneField" where
  "PhoneField_init phone =
     (case PhoneField_set_value phone \<lparr>phone_value = None\<rparr> of
        (Some e, f) \<Rightarrow> Inl e
      | (None, f) \<Rightarrow> Inr f)"

definition get_phone_code :: "PhoneField \<Rightarrow> string" where
  "get_phone_code f = lstrip (CHR ''0'') (lstrip (CHR ''+'') (py_str (phone_value f)))"

subsection \<open>BirthDayField\<close>

record BirthDayField =
  bd_value :: pyval
  bd_date :: "datetime option"

text \<open>The pattern \<open>^\d{4}\-\d?\d\-\d?\d$\<close>.\<close>

definition birthday_re :: "string \<Rightarrow> bool" where
  "birthday_re s =
     (let u = before_dollar s;
          y = take 4 u; r1 = drop 4 u;
          m = takeWhile isdigit (drop 1 r1); r2 = dropWhile isdigit (drop 1 r1);
          d = drop 1 r2
      in length y = 4 \<and> list_all isdigit y \<and> take 1 r1 = ''-''
         \<and> (length m = 1 \<or> length m = 2) \<and> take 1 r2 = ''-''
         \<and> (length d = 1 \<or> length d = 2) \<and> list_all isdigit d)"

text \<open>
  The validator stores the parsed date in the field before it compares the date with
  \<open>now\<close>, so it returns the field along with its result.
\<close>

definition validate_birthday ::
  "datetime \<Rightarrow> pyval \<Rightarrow> BirthDayField \<Rightarrow> (error + bool) \<times> BirthDayField" where
  "validate_birthday now v f =
     (case v of
        None \<Rightarrow> (Inl (ValueError ''Birthday cannot be None''), f)
      | Some s \<Rightarrow>
          if strip s = [] then (Inl (ValueError ''Birthday cannot be empty or whitespaces''), f)
          else if birthday_re s then
            (case fromisoformat s of
               Inl e \<Rightarrow> (Inl e, f)
             | Inr d \<Rightarrow>
                 if dt_gt d now
                 then (Inl (ValueError ''Birthday cannot be than now''), f\<lparr>bd_date := Some d\<rparr>)
                 else (Inr True, f\<lparr>bd_date := Some d\<rparr>))
          else (Inl (ValueError ''Birthday is not correct, should be YYYY-MM-DD''), f))"

definition BirthDayField_set_value ::
  "datetime \<Rightarrow> pyval \<Rightarrow> BirthDayField \<Rightarrow> error option \<times> BirthDayField" where
  "BirthDayField_set_value now new_value f =
     (case validate_birthday now new_value f of
        (Inl e, f') \<Rightarrow> (Some e, f')
      | (Inr ok, f') \<Rightarrow> (None, if ok then f'\<lparr>bd_value := new_value\<rparr> else f'))"

definition BirthDayField_init :: "datetime \<Rightarrow> pyval \<Rightarrow> error + BirthDayField" where
  "BirthDayField_init now b =
     (case BirthDayField_set_value now b \<lparr>bd_value = None, bd_date = None\<rparr> of
        (Some e, f) \<Rightarrow> Inl e
      | (None, f) \<Rightarrow> Inr f)"

definition get_datetime :: "BirthDayField \<Rightarrow> datetime option" where
  "get_datetime f = bd_date f"

section \<open>Record\<close>

record Record =
  name :: NameField
  phones :: "PhoneField list"
  birthday :: "BirthDayField option"

definition Record_init :: "pyval \<Rightarrow> BirthDayField option \<Rightarrow> error + Record" where
  "Record_init n b =
     (case NameField_init n of
        Inl e \<Rightarrow> Inl e
      | Inr nf \<Rightarrow> Inr \<lparr>name = nf, phones = [], birthday = b\<rparr>)"

definition add_phone :: "PhoneField \<Rightarrow> Record \<Rightarrow> Record" where
  "add_phone phone r = r\<lparr>phones := phones r @ [phone]\<rparr>"

definition edit_phone :: "PhoneField \<Rightarrow> Record \<Rightarrow> Record" where
  "edit_phone new_phone r = add_phone new_phone (r\<lparr>phones := []\<rparr>)"

text \<open>
  The loop of \<open>delete_phone\<close>: the first phone whose code equals \<open>phone_code\<close> is removed
  and the loop stops.
\<close>

fun remove_first_code :: "string \<Rightarrow> PhoneField list \<Rightarrow> PhoneField list" where
  "remove_first_code phone_code [] = []"
| "remove_first_code phone_code (s # ss) =
     (if get_phone_code s = phone_code then ss else s # remove_first_code phone_code ss)"

definition delete_phone :: "string \<Rightarrow> Record \<Rightarrow> Record" where
  "delete_phone number r =
     (let phone_code = lstrip (CHR ''0'') (lstrip (CHR ''+'') number)
      in r\<lparr>phones := remove_first_code phone_code (phones r)\<rparr>)"

definition days_to_birthday :: "datetime \<Rightarrow> Record \<Rightarrow> error + int" where
  "days_to_birthday now r =
     (case birthday r of
        None \<Rightarrow> Inl (AttributeError ''get_datetime'')
      | Some b \<Rightarrow>
         (case get_datetime b of
            None \<Rightarrow> Inl (AttributeError ''month'')
          | Some bd \<Rightarrow>
             (case datetime_new (year now) (month bd) (day bd) of
                Inl e \<Rightarrow> Inl e
              | Inr delta1 \<Rightarrow>
                 (case datetime_new (year now + 1) (month bd) (day bd) of
                    Inl e \<Rightarrow> Inl e
                  | Inr delta2 \<Rightarrow>
                      Inr (days_between (if dt_gt delta1 now then delta1 else delta2) now)))))"

section \<open>AddressBook\<close>

text \<open>
  The dictionary \<open>data\<close> keeps its keys in insertion order, so it is a list of key and
  value pairs with no key twice. Assigning to a key that is present replaces the value
  where it stands; a new key goes to the end.
\<close>

fun dict_set :: "'k \<Rightarrow> 'v \<Rightarrow> ('k \<times> 'v) list \<Rightarrow> ('k \<times> 'v) list" where
  "dict_set k v [] = [(k, v)]"
| "dict_set k v ((k', v') # rest) =
     (if k' = k then (k', v) # rest else (k', v') # dict_set k v rest)"

record AddressBook =
  data :: "(pyval \<times> Record) list"
  max_page :: int

definition AddressBook_init :: "int option \<Rightarrow> AddressBook" where
  "AddressBook_init mp = \<lparr>data = [], max_page = (case mp of None \<Rightarrow> 3 | Some m \<Rightarrow> m)\<rparr>"

definition add_record :: "Record \<Rightarrow> AddressBook \<Rightarrow> AddressBook" where
  "add_record r book = book\<lparr>data := dict_set (name_value (name r)) r (data book)\<rparr>"

definition items :: "AddressBook \<Rightarrow> (pyval \<times> Record) list" where
  "items book = data book"

text \<open>The generator \<open>__iter__\<close>, as the list of the pages it yields.\<close>

fun iter_loop :: "int \<Rightarrow> Record list \<Rightarrow> (pyval \<times> Record) list \<Rightarrow> Record list list" where
  "iter_loop mp page [] = (if page \<noteq> [] then [page] else [])"
| "iter_loop mp page ((k, record) # rest) =
     (if int (length (page @ [record])) = mp
      then (page @ [record]) # iter_loop mp [] rest
      else iter_loop mp (page @ [record]) rest)"

definition AddressBook_iter :: "AddressBook \<Rightarrow> Record list list" where
  "AddressBook_iter book = iter_loop (max_page book) [] (items book)"

fun getitem_loop :: "int \<Rightarrow> int \<Rightarrow> Record list list \<Rightarrow> error + Record list" where
  "getitem_loop page_number p [] =
     Inl (KeyError (''index out of range in book, max page: '' @ str_int p))"
| "getitem_loop page_number p (page # rest) =
     (if page_number = p then Inr page else getitem_loop page_number (p + 1) rest)"

definition AddressBook_getitem :: "int \<Rightarrow> AddressBook \<Rightarrow> error + Record list" where
  "AddressBook_getitem page_number book = getitem_loop page_number 1 (AddressBook_iter book)"

subsection \<open>The persisted format\<close>

text \<open>
  One element of the JSON array: an object whose keys \<open>name\<close>, \<open>birthday\<close> and \<open>phones\<close>
  may each be absent; a value that is present is a string or \<open>null\<close>, and \<open>phones\<close> is an
  array of such values. A file is what \<open>json.load\<close> makes of it: the message of the
  \<open>JSONDecodeError\<close>, or the decoded array; \<open>json.dump\<close> writes a file that decodes to
  the array it was given. The file system maps file names to files.
\<close>

record json_record =
  json_name :: "pyval option"
  json_birthday :: "pyval option"
  json_phones :: "pyval list option"

type_synonym json_file = "string + json_record list"

type_synonym filesystem = "string \<Rightarrow> json_file option"

definition get_json_data :: "Record \<Rightarrow> json_record" where
  "get_json_data r =
     \<lparr>json_name = Some (name_value (name r)),
      json_birthday = (case birthday r of None \<Rightarrow> None | Some b \<Rightarrow> Some (bd_value b)),
      json_phones = Some (map phone_value (phones r))\<rparr>"

definition save_to_file :: "string \<Rightarrow> AddressBook \<Rightarrow> filesystem \<Rightarrow> filesystem" where
  "save_to_file filename book fs =
     fs(filename := Some (Inr (map (\<lambda>(k, record). get_json_data record) (data book))))"

fun add_phones :: "pyval list \<Rightarrow> Record \<Rightarrow> error + Record" where
  "add_phones [] record = Inr record"
| "add_phones (phone # rest) record =
     (case PhoneField_init phone of
        Inl e \<Rightarrow> Inl e
      | Inr f \<Rightarrow> add_phones rest (add_phone f record))"

text \<open>
  The body of the \<open>try\<close> in \<open>load_from_file\<close> up to the call of \<open>add_record\<close>: the record
  rebuilt from one element, \<open>None\<close> when the element has no \<open>name\<close> key.
\<close>

definition load_record :: "datetime \<Rightarrow> json_record \<Rightarrow> error + Record option" where
  "load_record now json_rec =
     (case json_name json_rec of
        None \<Rightarrow> Inr None
      | Some n \<Rightarrow>
         (case Record_init n None of
            Inl e \<Rightarrow> Inl e
          | Inr record \<Rightarrow>
             (case (case json_birthday json_rec of
                      None \<Rightarrow> Inr record
                    | Some b \<Rightarrow>
                       (case BirthDayField_init now b of
                          Inl e \<Rightarrow> Inl e
                        | Inr f \<Rightarrow> Inr (record\<lparr>birthday := Some f\<rparr>))) of
                Inl e \<Rightarrow> Inl e
              | Inr record1 \<Rightarrow>
                 (case (case json_phones json_rec of
                          None \<Rightarrow> Inr record1
                        | Some ps \<Rightarrow> add_phones ps record1) of
                    Inl e \<Rightarrow> Inl e
                  | Inr record2 \<Rightarrow> Inr (Some record2)))))"

text \<open>
  The loop over the decoded array. A \<open>ValueError\<close> ends it with the returned message;
  any other exception leaves the function. \<open>record_index\<close> is passed along as the source
  has it: set once before the loop and not assigned again.
\<close>

fun load_loop ::
  "datetime \<Rightarrow> nat \<Rightarrow> json_record list \<Rightarrow> AddressBook \<Rightarrow> (error + string option) \<times> AddressBook" where
  "load_loop now record_index [] book = (Inr None, book)"
| "load_loop now record_index (json_rec # rest) book =
     (case load_record now json_rec of
        Inl (ValueError m) \<Rightarrow>
          (Inr (Some (''Validation error in '' @ str_nat record_index @ '' record: '' @ m)), book)
      | Inl e \<Rightarrow> (Inl e, book)
      | Inr None \<Rightarrow> load_loop now record_index rest book
      | Inr (Some record) \<Rightarrow> load_loop now record_index rest (add_record record book))"

definition load_from_file ::
  "filesystem \<Rightarrow> string \<Rightarrow> datetime \<Rightarrow> AddressBook \<Rightarrow> (error + string option) \<times> AddressBook" where
  "load_from_file fs filename now book =
     (case fs filename of
        None \<Rightarrow> (Inl (FileNotFoundError filename), book)
      | Some (Inl msg) \<Rightarrow> (Inr (Some msg), book)
      | Some (Inr address_book_json) \<Rightarrow> load_loop now 0 address_book_json (book\<lparr>data := []\<rparr>))"

subsection \<open>A reloaded record\<close>

text \<open>
  How a record rebuilt from the file stands to the record that was saved: the same
  name field, the same phone fields, and a birthday field built anew from the saved
  birthday's value.
\<close>

definition reloaded :: "datetime \<Rightarrow> pyval \<times> Record \<Rightarrow> pyval \<times> Record \<Rightarrow> bool" where
  "reloaded now x' x =
     (fst x' = fst x \<and> name (snd x') = name (snd x) \<and> phones (snd x') = phones (snd x)
      \<and> rel_option (\<lambda>f' b. BirthDayField_init now (bd_value b) = Inr f' \<and> bd_value f' = bd_value b)
           (birthday (snd x')) (birthday (snd x)))"

section \<open>Example values\<close>

definition example_now :: datetime where
  "example_now = \<lparr>year = 2026, month = 11, day = 4, hour = 10, minute = 30, second = 0, microsecond = 0\<rparr>"

definition ann :: Record where
  "ann = \<lparr>name = \<lparr>name_value = Some ''Ann''\<rparr>,
          phones = [\<lparr>phone_value = Some ''+380501112233''\<rparr>, \<lparr>phone_value = Some ''0441234567''\<rparr>],
          birthday = None\<rparr>"

definition ben :: Record where
  "ben = \<lparr>name = \<lparr>name_value = Some ''Ben''\<rparr>,
          phones = [\<lparr>phone_value = Some ''+380671234567''\<rparr>],
          birthday = Some \<lparr>bd_value = Some ''1990-05-17'',
            bd_date = Some \<lparr>year = 1990, month = 5, day = 17, hour = 0, minute = 0, second = 0, microsecond = 0\<rparr>\<rparr>\<rparr>"

definition eve :: Record where
  "eve = \<lparr>name = \<lparr>name_value = Some ''Eve''\<rparr>, phones = [], birthday = None\<rparr>"

definition example_book :: AddressBook where
  "example_book = \<lparr>data = [(Some ''Ann'', ann), (Some ''Ben'', ben)], max_page = 3\<rparr>"

definition paged_book :: AddressBook where
  "paged_book = \<lparr>data = [(Some ''Ann'', ann), (Some ''Ben'', ben), (Some ''Eve'', eve)], max_page = 2\<rparr>"

definition eve_book :: AddressBook where
  "eve_book = \<lparr>data = [(Some ''Eve'', eve)], max_page = 3\<rparr>"

text \<open>A file whose third element (index 2) carries a birthday in the future.\<close>

definition example_json :: "json_record list" where
  "example_json =
     [\<lparr>json_name = Some (Some ''Ann''), json_birthday = None,
       json_phones = Some [Some ''+380501112233'', Some ''0441234567'']\<rparr>,
      \<lparr>json_name = Some (Some ''Ben''), json_birthday = Some (Some ''1990-05-17''),
       json_phones = Some [Some ''+380671234567'']\<rparr>,
      \<lparr>json_name = Some (Some ''Bob''), json_birthday = Some (Some ''2999-01-01''),
       json_phones = None\<rparr>]"

definition example_fs :: filesystem where
  "example_fs = Map.empty(''book.json'' \<mapsto> Inr example_json)"

definition born_2000 :: BirthDayField where
  "born_2000 = \<lparr>bd_value = Some ''2000-01-01'',
     bd_date = Some \<lparr>year = 2000, month = 1, day = 1, hour = 0, minute = 0, second = 0, microsecond = 0\<rparr>\<rparr>"

definition born_today :: BirthDayField where
  "born_today = \<lparr>bd_value = Some ''2000-11-04'',
     bd_date = Some \<lparr>year = 2000, month = 11, day = 4, hour = 0, minute = 0, second = 0, microsecond = 0\<rparr>\<rparr>"

definition stored_phone :: PhoneField where
  "stored_phone = \<lparr>phone_value = Some ''+380501234567''\<rparr>"

section \<open>The dictionary\<close>

lemma dict_set_at:
  "distinct (map fst xs) \<Longrightarrow> i < length xs \<Longrightarrow> fst (xs ! i) = k \<Longrightarrow> dict_set k v xs = xs[i := (k, v)]"
proof (induction xs arbitrary: i)
  case Nil
  then show ?case by simp
next
  case (Cons x xs)
  obtain k' v' where x: "x = (k', v')" by (cases x)
  show ?case
  proof (cases i)
    case 0
    with Cons.prems x show ?thesis by simp
  next
    case (Suc j)
    with Cons.prems x have j: "j < length xs" "fst (xs ! j) = k" by simp_all
    then have "k \<in> fst ` set xs" by (metis nth_mem image_eqI)
    moreover from Cons.prems x have "k' \<notin> fst ` set xs" by simp
    ultimately have "k' \<noteq> k" by blast
    with Cons.IH [of j] Cons.prems j x Suc show ?thesis by simp
  qed
qed

lemma dict_set_keys_present:
  "k \<in> fst ` set xs \<Longrightarrow> map fst (dict_set k v xs) = map fst xs"
  by (induction xs) force+

lemma dict_set_keys_absent:
  "k \<notin> fst ` set xs \<Longrightarrow> dict_set k v xs = xs @ [(k, v)]"
  by (induction xs) auto

lemma dict_set_distinct:
  "distinct (map fst xs) \<Longrightarrow> distinct (map fst (dict_set k v xs))"
  by (cases "k \<in> fst ` set xs") (simp_all add: dict_set_keys_present dict_set_keys_absent)


section \<open>Re-assigning a field\<close>

text \<open>
  A setter that raises leaves a \<open>NameField\<close> and a \<open>PhoneField\<close> as they were, and a
  setter that returns has stored a value that passed the validator.
\<close>

lemma NameField_set_value_raises:
  "NameField_set_value v f = (Some e, f') \<Longrightarrow> f' = f \<and> validate_name v = Inl e"
  by (auto simp: NameField_set_value_def split: sum.splits)

lemma NameField_set_value_returns:
  "NameField_set_value v f = (None, f') \<Longrightarrow> name_value f' = v \<and> validate_name v = Inr True"
  by (auto simp: NameField_set_value_def validate_name_def split: sum.splits option.splits if_splits)

lemma PhoneField_set_value_raises:
  "PhoneField_set_value v f = (Some e, f') \<Longrightarrow> f' = f \<and> validate_phone v = Inl e"
  by (auto simp: PhoneField_set_value_def split: sum.splits)

lemma PhoneField_set_value_returns:
  "PhoneField_set_value v f = (None, f') \<Longrightarrow> phone_value f' = v \<and> validate_phone v = Inr True"
  by (auto simp: PhoneField_set_value_def validate_phone_def split: sum.splits option.splits if_splits)

text \<open>
  A \<open>BirthDayField\<close> keeps its value when the setter raises, but not always its date:
  a string that parses to a date after \<open>now\<close> is refused after the date was stored.
\<close>

lemma BirthDayField_set_value_raises:
  "BirthDayField_set_value now v f = (Some e, f') \<Longrightarrow> bd_value f' = bd_value f"
  by (auto simp: BirthDayField_set_value_def validate_birthday_def
      split: sum.splits option.splits if_splits prod.splits)

lemma BirthDayField_set_value_returns:
  "BirthDayField_set_value now v f = (None, f') \<Longrightarrow>
     bd_value f' = v \<and> (\<exists>s d. v = Some s \<and> fromisoformat s = Inr d \<and> bd_date f' = Some d \<and> \<not> dt_gt d now)"
  by (auto simp: BirthDayField_set_value_def validate_birthday_def
      split: sum.splits option.splits if_splits prod.splits)

lemma BirthDayField_set_value_future:
  assumes "strip s \<noteq> []" and "birthday_re s" and "fromisoformat s = Inr d" and "dt_gt d now"
  shows "BirthDayField_set_value now (Some s) f
           = (Some (ValueError ''Birthday cannot be than now''), f\<lparr>bd_date := Some d\<rparr>)"
  using assms by (simp add: BirthDayField_set_value_def validate_birthday_def)

text \<open>
  C4. Re-assigning a validated field runs the validator again, and a re-assignment that
  raises should leave the field as it was. For a \<open>BirthDayField\<close> built from
  \<open>2000-01-01\<close>, assigning \<open>2999-01-01\<close> on 2026-11-04 raises, the value stays
  \<open>2000-01-01\<close>, and \<open>get_datetime\<close> now gives 2999-01-01 instead of the date it gave
  before.
\<close>

theorem birthday_reassignment_failure_changes_date:
  "BirthDayField_init example_now (Some ''2000-01-01'') = Inr born_2000
   \<and> BirthDayField_set_value example_now (Some ''2999-01-01'') born_2000
       = (Some (ValueError ''Birthday cannot be than now''),
          \<lparr>bd_value = Some ''2000-01-01'',
           bd_date = Some \<lparr>year = 2999, month = 1, day = 1, hour = 0, minute = 0, second = 0, microsecond = 0\<rparr>\<rparr>)
   \<and> get_datetime (snd (BirthDayField_set_value example_now (Some ''2999-01-01'') born_2000))
       \<noteq> get_datetime born_2000"
  by code_simp

section \<open>Record operations\<close>

text \<open>
  C8. For every record and every valid new phone (a \<open>PhoneField\<close> that was built from the
  value \<open>p\<close>), the phone list after \<open>edit_phone\<close> is exactly the one new phone, whatever
  the list held before.
\<close>

theorem edit_phone_single:
  "PhoneField_init p = Inr new_phone \<Longrightarrow>
     phones (edit_phone new_phone r) = [new_phone]
     \<and> length (phones (edit_phone new_phone r)) = 1
     \<and> phone_value new_phone = p"
  by (auto simp: edit_phone_def add_phone_def PhoneField_init_def PhoneField_set_value_def
      validate_phone_def split: sum.splits if_splits prod.splits option.splits)

theorem edit_phone_single_witness:
  "PhoneField_init (Some ''+380931234567'') = Inr \<lparr>phone_value = Some ''+380931234567''\<rparr>
   \<and> length (phones ann) = 2
   \<and> phones (edit_phone \<lparr>phone_value = Some ''+380931234567''\<rparr> ann)
       = [\<lparr>phone_value = Some ''+380931234567''\<rparr>]"
proof -
  have h: "PhoneField_init (Some ''+380931234567'') = Inr \<lparr>phone_value = Some ''+380931234567''\<rparr>"
    by code_simp
  have l: "length (phones ann) = 2"
    by (simp add: ann_def)
  show ?thesis
    using h l edit_phone_single [OF h, of ann] by simp
qed

lemma remove_first_code_eq:
  "remove_first_code c ps
     = takeWhile (\<lambda>s. get_phone_code s \<noteq> c) ps @ drop 1 (dropWhile (\<lambda>s. get_phone_code s \<noteq> c) ps)"
  by (induction ps) simp_all

lemma remove_first_code_keeps:
  "s \<in> set ps \<Longrightarrow> get_phone_code s \<noteq> c \<Longrightarrow> s \<in> set (remove_first_code c ps)"
  by (induction ps) auto

text \<open>
  C5 as the code has it. \<open>delete_phone\<close> removes the first phone whose code (every
  leading \<open>+\<close> stripped, then every leading \<open>0\<close>) equals the code of its argument, and
  nothing else. The code of \<open>0501234567\<close> is \<open>501234567\<close> and the code of a phone stored
  as \<open>+380501234567\<close> is \<open>380501234567\<close>: they differ, so \<open>delete_phone("0501234567")\<close>
  leaves such a phone in the list.
\<close>

theorem delete_phone_removes_first_matching_code:
  "phones (delete_phone number r)
     = takeWhile (\<lambda>s. get_phone_code s \<noteq> lstrip (CHR ''0'') (lstrip (CHR ''+'') number)) (phones r)
       @ drop 1 (dropWhile (\<lambda>s. get_phone_code s \<noteq> lstrip (CHR ''0'') (lstrip (CHR ''+'') number)) (phones r))
   \<and> lstrip (CHR ''0'') (lstrip (CHR ''+'') ''0501234567'') = ''501234567''
   \<and> get_phone_code stored_phone = ''380501234567''
   \<and> (stored_phone \<in> set (phones r) \<longrightarrow> stored_phone \<in> set (phones (delete_phone ''0501234567'' r)))"
proof -
  have a: "lstrip (CHR ''0'') (lstrip (CHR ''+'') ''0501234567'') = ''501234567''"
    by code_simp
  have b: "get_phone_code stored_phone = ''380501234567''"
    by code_simp
  have c: "phones (delete_phone number r)
     = takeWhile (\<lambda>s. get_phone_code s \<noteq> lstrip (CHR ''0'') (lstrip (CHR ''+'') number)) (phones r)
       @ drop 1 (dropWhile (\<lambda>s. get_phone_code s \<noteq> lstrip (CHR ''0'') (lstrip (CHR ''+'') number)) (phones r))"
    by (simp add: delete_phone_def Let_def remove_first_code_eq)
  have d: "stored_phone \<in> set (phones r) \<longrightarrow> stored_phone \<in> set (phones (delete_phone ''0501234567'' r))"
  proof
    assume "stored_phone \<in> set (phones r)"
    moreover have "get_phone_code stored_phone \<noteq> ''501234567''"
      unfolding b by simp
    ultimately have "stored_phone \<in> set (remove_first_code ''501234567'' (phones r))"
      by (rule remove_first_code_keeps)
    then show "stored_phone \<in> set (phones (delete_phone ''0501234567'' r))"
      by (simp add: delete_phone_def Let_def a)
  qed
  from a b c d show ?thesis by blast
qed

theorem delete_phone_removes_first_matching_code_witness:
  "stored_phone \<in> set (phones (ann\<lparr>phones := [stored_phone, \<lparr>phone_value = Some ''+0501234567''\<rparr>]\<rparr>))
   \<and> phones (delete_phone ''0501234567''
        (ann\<lparr>phones := [stored_phone, \<lparr>phone_value = Some ''+0501234567''\<rparr>]\<rparr>)) = [stored_phone]"
proof -
  let ?r = "ann\<lparr>phones := [stored_phone, \<lparr>phone_value = Some ''+0501234567''\<rparr>]\<rparr>"
  have h: "stored_phone \<in> set (phones ?r)" by simp
  have e: "phones (delete_phone ''0501234567'' ?r) = [stored_phone]"
    by code_simp
  from delete_phone_removes_first_matching_code [of "''0501234567''" ?r] h
  have "stored_phone \<in> set (phones (delete_phone ''0501234567'' ?r))" by blast
  with h e show ?thesis by simp
qed

text \<open>
  C5 as the claim states it fails: the record whose only phone is stored as
  \<open>+380501234567\<close> (a value \<open>PhoneField\<close> accepts) still has that phone after
  \<open>delete_phone("0501234567")\<close>.
\<close>

theorem delete_phone_0501234567_counterexample:
  "PhoneField_init (Some ''+380501234567'') = Inr stored_phone
   \<and> phones (delete_phone ''0501234567'' (ann\<lparr>phones := [stored_phone]\<rparr>)) = [stored_phone]"
  by code_simp

subsection \<open>Days to the birthday\<close>

lemma div_step:
  assumes "0 < (k::int)"
  shows "y div k - (y - 1) div k = (if y mod k = 0 then 1 else 0)"
proof -
  define q where "q = y div k"
  define m where "m = y mod k"
  have y: "y = k * q + m" by (simp add: q_def m_def)
  have m: "0 \<le> m" "m < k" using assms by (simp_all add: m_def)
  show ?thesis
  proof (cases "m = 0")
    case True
    have "y - 1 = k * (q - 1) + (k - 1)" using y True by (simp add: algebra_simps)
    then have "(y - 1) div k = q - 1"
      by (rule int_div_pos_eq) (use assms in simp_all)
    with True show ?thesis by (simp add: q_def [symmetric] m_def [symmetric])
  next
    case False
    have "y - 1 = k * q + (m - 1)" using y by simp
    then have "(y - 1) div k = q"
      by (rule int_div_pos_eq) (use m False in simp_all)
    with False show ?thesis by (simp add: q_def [symmetric] m_def [symmetric])
  qed
qed

lemma days_before_year_step:
  "days_before_year (y + 1) - days_before_year y = 365 + (if is_leap y then 1 else 0)"
proof -
  define p4 where "p4 \<longleftrightarrow> y mod 4 = 0"
  define p100 where "p100 \<longleftrightarrow> y mod 100 = 0"
  define p400 where "p400 \<longleftrightarrow> y mod 400 = 0"
  define s4 where "s4 = y div 4 - (y - 1) div 4"
  define s100 where "s100 = y div 100 - (y - 1) div 100"
  define s400 where "s400 = y div 400 - (y - 1) div 400"
  have s4: "s4 = (if p4 then 1 else 0)"
    unfolding s4_def p4_def by (rule div_step) simp
  have s100: "s100 = (if p100 then 1 else 0)"
    unfolding s100_def p100_def by (rule div_step) simp
  have s400: "s400 = (if p400 then 1 else 0)"
    unfolding s400_def p400_def by (rule div_step) simp
  have "y mod 100 mod 4 = y mod 4" by (rule mod_mod_cancel) simp
  then have a: "p100 \<Longrightarrow> p4" unfolding p100_def p4_def by simp
  have "y mod 400 mod 100 = y mod 100" by (rule mod_mod_cancel) simp
  then have b: "p400 \<Longrightarrow> p100" unfolding p400_def p100_def by simp
  have leap: "is_leap y \<longleftrightarrow> p4 \<and> (\<not> p100 \<or> p400)"
    unfolding is_leap_def p4_def p100_def p400_def ..
  have "days_before_year (y + 1) - days_before_year y = 365 + s4 - s100 + s400"
    unfolding s4_def s100_def s400_def by (simp add: days_before_year_def)
  also have "\<dots> = 365 + (if is_leap y then 1 else 0)"
    unfolding s4 s100 s400 leap using a b by (cases p4; cases p100; cases p400) simp_all
  finally show ?thesis .
qed

lemma days_before_month_step:
  "days_before_month (y + 1) m - days_before_month y m \<ge> - (if is_leap y then 1 else 0)"
  unfolding days_before_month_def by simp

lemma toordinal_next_year:
  "toordinal (d\<lparr>year := year d + 1\<rparr>) - toordinal d \<ge> 365"
proof -
  have "toordinal (d\<lparr>year := year d + 1\<rparr>) - toordinal d
      = (days_before_year (year d + 1) - days_before_year (year d))
        + (days_before_month (year d + 1) (month d) - days_before_month (year d) (month d))"
    by (simp add: toordinal_def)
  with days_before_year_step [of "year d"] days_before_month_step [of "year d" "month d"]
  show ?thesis by (simp split: if_splits)
qed

text \<open>
  On the birthday (the month and day of \<open>now\<close> are those of the birthday, at any time of
  the day) \<open>days_to_birthday\<close> never returns 0: this year's occurrence, at midnight, is
  not after \<open>now\<close>, so the difference is taken to next year's occurrence.
\<close>

lemma days_to_birthday_on_birthday:
  assumes b: "birthday r = Some b" "get_datetime b = Some bd"
    and same: "month bd = month now" "day bd = day now"
    and tod: "0 \<le> hour now" "hour now < 24" "0 \<le> minute now" "minute now < 60"
      "0 \<le> second now" "second now < 60" "0 \<le> microsecond now" "microsecond now < 1000000"
    and res: "days_to_birthday now r = Inr n"
  shows "364 \<le> n"
proof -
  let ?d1 = "\<lparr>year = year now, month = month now, day = day now,
              hour = 0, minute = 0, second = 0, microsecond = 0\<rparr>"
  let ?d2 = "?d1\<lparr>year := year now + 1\<rparr>"
  from res b same have d1: "datetime_new (year now) (month now) (day now) = Inr ?d1"
    by (auto simp: days_to_birthday_def datetime_new_def split: sum.splits if_splits)
  from res b same have d2: "datetime_new (year now + 1) (month now) (day now) = Inr ?d2"
    by (auto simp: days_to_birthday_def datetime_new_def split: sum.splits if_splits)
  have ngt: "\<not> dt_gt ?d1 now"
    using tod by (auto simp: dt_gt_def)
  from res b same d1 d2 ngt have n: "n = days_between ?d2 now"
    by (simp add: days_to_birthday_def)
  define t where "t = hour now * 3600000000 + minute now * 60000000 + second now * 1000000 + microsecond now"
  have t: "0 \<le> t" "t < 86400000000"
    using tod by (simp_all add: t_def)
  have o1: "toordinal now = toordinal ?d1" by (simp add: toordinal_def)
  have us1: "to_microseconds now = toordinal ?d1 * 86400000000 + t"
    by (simp add: to_microseconds_def t_def o1 algebra_simps)
  have us2: "to_microseconds ?d2 = toordinal ?d2 * 86400000000"
    by (simp add: to_microseconds_def)
  from toordinal_next_year [of ?d1] have "365 \<le> toordinal ?d2 - toordinal ?d1" by simp
  then have "364 * 86400000000 \<le> to_microseconds ?d2 - to_microseconds now"
    using t unfolding us1 us2 by simp
  then have "364 \<le> (to_microseconds ?d2 - to_microseconds now) div 86400000000"
    by simp
  then show ?thesis by (simp add: n days_between_def)
qed

text \<open>
  C1. When today is the birthday, \<open>days_to_birthday\<close> should return 0. For a birthday
  \<open>2000-11-04\<close> and \<open>now\<close> = 2026-11-04 10:30 the code returns 364.
\<close>

theorem days_to_birthday_on_the_birthday_is_364:
  "BirthDayField_init example_now (Some ''2000-11-04'') = Inr born_today
   \<and> month example_now = 11 \<and> day example_now = 4
   \<and> days_to_birthday example_now (eve\<lparr>birthday := Some born_today\<rparr>) = Inr 364"
  by code_simp

section \<open>Adding records\<close>

text \<open>
  C10. When \<open>add_record\<close> is given a record whose name is already a key of the book (at
  position \<open>i\<close> of the key order), the new record takes the old one's place: the keys
  and their order are unchanged, the entry at \<open>i\<close> is the new record, and iteration
  pages the records in that same order.
\<close>

theorem add_record_existing_keeps_position:
  assumes "distinct (map fst (data book))"
    and "i < length (data book)"
    and "fst (data book ! i) = name_value (name r)"
  shows "data (add_record r book) = (data book)[i := (name_value (name r), r)]
       \<and> map fst (data (add_record r book)) = map fst (data book)
       \<and> length (data (add_record r book)) = length (data book)
       \<and> AddressBook_iter (add_record r book)
           = iter_loop (max_page book) [] ((data book)[i := (name_value (name r), r)])"
proof -
  have d: "data (add_record r book) = (data book)[i := (name_value (name r), r)]"
    using assms by (simp add: add_record_def dict_set_at)
  have "name_value (name r) \<in> fst ` set (data book)"
    using assms(2,3) by (metis nth_mem image_eqI)
  then have k: "map fst (data (add_record r book)) = map fst (data book)"
    by (simp add: add_record_def dict_set_keys_present)
  have "max_page (add_record r book) = max_page book"
    by (simp add: add_record_def)
  with d k show ?thesis
    by (simp add: AddressBook_iter_def items_def)
qed

theorem add_record_existing_keeps_position_witness:
  "distinct (map fst (data example_book)) \<and> (0::nat) < length (data example_book)
   \<and> fst (data example_book ! 0) = name_value (name (edit_phone \<lparr>phone_value = Some ''+380931234567''\<rparr> ann))
   \<and> map fst (data (add_record (edit_phone \<lparr>phone_value = Some ''+380931234567''\<rparr> ann) example_book))
       = [Some ''Ann'', Some ''Ben'']
   \<and> AddressBook_iter (add_record (edit_phone \<lparr>phone_value = Some ''+380931234567''\<rparr> ann) example_book)
       = [[edit_phone \<lparr>phone_value = Some ''+380931234567''\<rparr> ann, ben]]"
proof -
  let ?r = "edit_phone \<lparr>phone_value = Some ''+380931234567''\<rparr> ann"
  have h1: "distinct (map fst (data example_book))"
    by (simp add: example_book_def)
  have h2: "(0::nat) < length (data example_book)"
    by (simp add: example_book_def)
  have h3: "fst (data example_book ! 0) = name_value (name ?r)"
    by (simp add: example_book_def edit_phone_def add_phone_def ann_def)
  have n: "name_value (name ?r) = Some ''Ann''"
    by (simp add: edit_phone_def add_phone_def ann_def)
  show ?thesis
    using h1 h2 h3 add_record_existing_keeps_position [OF h1 h2 h3]
    by (simp add: example_book_def n)
qed

section \<open>Pagination\<close>

lemma iter_loop_concat: "concat (iter_loop mp page xs) = page @ map snd xs"
  by (induction mp page xs rule: iter_loop.induct) auto

lemma iter_loop_pages:
  "int (length page) < mp \<Longrightarrow> pg \<in> set (iter_loop mp page xs) \<Longrightarrow> pg \<noteq> [] \<and> int (length pg) \<le> mp"
  by (induction mp page xs rule: iter_loop.induct) (auto split: if_splits)

lemma ceil_small: "0 < (a::int) \<Longrightarrow> a < mp \<Longrightarrow> (a + mp - 1) div mp = 1"
proof -
  assume a: "0 < a" "a < mp"
  have "(a - 1 + mp) div mp = (a - 1) div mp + 1"
    using a by (intro div_add_self2) simp
  moreover have "(a - 1) div mp = 0"
    using a by (intro div_pos_pos_trivial) simp_all
  moreover have "(a + mp - 1) div mp = (a - 1 + mp) div mp"
    by (rule arg_cong [where f = "\<lambda>x. x div mp"]) simp
  ultimately show ?thesis by linarith
qed

lemma iter_loop_length:
  "0 < mp \<Longrightarrow> int (length page) < mp \<Longrightarrow>
   int (length (iter_loop mp page xs)) = (int (length page) + int (length xs) + mp - 1) div mp"
proof (induction mp page xs rule: iter_loop.induct)
  case (1 mp page)
  show ?case
  proof (cases "page = []")
    case True
    with 1 show ?thesis by simp
  next
    case False
    then have "0 < int (length page)" by simp
    with 1 False show ?thesis by (simp add: ceil_small)
  qed
next
  case (2 mp page k r rest)
  show ?case
  proof (cases "int (length (page @ [r])) = mp")
    case True
    then have e: "int (length page) + int (length ((k, r) # rest)) + mp - 1
                = (int (length rest) + mp - 1) + mp" by simp
    have "mp \<noteq> 0" using 2(3) by simp
    then have d: "(int (length rest) + mp - 1 + mp) div mp = (int (length rest) + mp - 1) div mp + 1"
      by (rule div_add_self2)
    have "int (length (iter_loop mp page ((k, r) # rest))) = 1 + int (length (iter_loop mp [] rest))"
      using True by simp
    also have "\<dots> = 1 + (int (length rest) + mp - 1) div mp"
      using 2(1) [OF True 2(3)] 2(3) by simp
    finally show ?thesis
      unfolding e d by simp
  next
    case False
    with 2(4) have lt: "int (length (page @ [r])) < mp" by simp
    have step: "iter_loop mp page ((k, r) # rest) = iter_loop mp (page @ [r]) rest"
      using False by simp
    have e: "int (length (page @ [r])) + int (length rest)
           = int (length page) + int (length ((k, r) # rest))" by simp
    from 2(2) [OF False 2(3) lt] show ?thesis
      unfolding step e .
  qed
qed

lemma iter_loop_last:
  "0 < mp \<Longrightarrow> int (length page) < mp \<Longrightarrow> page \<noteq> [] \<or> xs \<noteq> [] \<Longrightarrow>
   iter_loop mp page xs \<noteq> [] \<and>
   int (length (last (iter_loop mp page xs)))
     = (if (int (length page) + int (length xs)) mod mp = 0 then mp
        else (int (length page) + int (length xs)) mod mp)"
proof (induction mp page xs rule: iter_loop.induct)
  case (1 mp page)
  then have "page \<noteq> []" "int (length page) mod mp = int (length page)" "0 < int (length page)"
    by simp_all
  then show ?case by simp
next
  case (2 mp page k r rest)
  show ?case
  proof (cases "int (length (page @ [r])) = mp")
    case True
    note full = this
    then have tot: "int (length page) + int (length ((k, r) # rest)) = int (length rest) + mp"
      by simp
    have m: "(int (length rest) + mp) mod mp = int (length rest) mod mp"
      by simp
    have step: "iter_loop mp page ((k, r) # rest) = (page @ [r]) # iter_loop mp [] rest"
      using full by simp
    show ?thesis
    proof (cases "rest = []")
      case True
      with full have "int (length (last (iter_loop mp page ((k, r) # rest)))) = mp"
        unfolding step by simp
      moreover have "int (length rest) mod mp = 0" using True by simp
      ultimately show ?thesis unfolding tot m using step by simp
    next
      case False
      with 2(1) [OF full 2(3)] 2(3) have ih: "iter_loop mp [] rest \<noteq> []"
        "int (length (last (iter_loop mp [] rest)))
          = (if int (length rest) mod mp = 0 then mp else int (length rest) mod mp)"
        by simp_all
      from ih show ?thesis unfolding tot m step by simp
    qed
  next
    case False
    with 2(4) have lt: "int (length (page @ [r])) < mp" by simp
    have step: "iter_loop mp page ((k, r) # rest) = iter_loop mp (page @ [r]) rest"
      using False by simp
    have e: "int (length (page @ [r])) + int (length rest)
           = int (length page) + int (length ((k, r) # rest))" by simp
    have "page @ [r] \<noteq> [] \<or> rest \<noteq> []" by simp
    from 2(2) [OF False 2(3) lt this] show ?thesis
      unfolding step e .
  qed
qed

lemma getitem_loop_eq:
  "getitem_loop n p pages =
     (if p \<le> n \<and> n < p + int (length pages) then Inr (pages ! nat (n - p))
      else Inl (KeyError (''index out of range in book, max page: '' @ str_int (p + int (length pages)))))"
proof (induction pages arbitrary: p)
  case Nil
  then show ?case by simp
next
  case (Cons a pages)
  show ?case
  proof (cases "n = p")
    case True
    then show ?thesis by simp
  next
    case False
    note ne = this
    have e: "p + 1 + int (length pages) = p + int (length (a # pages))" by simp
    show ?thesis
    proof (cases "p \<le> n")
      case True
      with ne have "nat (n - p) = Suc (nat (n - (p + 1)))" by linarith
      then have "(a # pages) ! nat (n - p) = pages ! nat (n - (p + 1))" by simp
      moreover from True ne have "p + 1 \<le> n" by simp
      ultimately show ?thesis
        using ne True Cons [of "p + 1"] unfolding e by simp
    next
      case False
      then have "\<not> p + 1 \<le> n" by simp
      with False ne Cons [of "p + 1"] show ?thesis unfolding e by simp
    qed
  qed
qed

lemma ceiling_div_pos:
  assumes "0 < (p::int)"
  shows "\<lceil>real_of_int n / real_of_int p\<rceil> = (n + p - 1) div p"
proof -
  define z where "z = (n + p - 1) div p"
  define m where "m = (n + p - 1) mod p"
  have zm: "z * p + m = n + p - 1"
    unfolding z_def m_def by simp
  have m: "0 \<le> m" "m < p"
    unfolding m_def using assms by simp_all
  from zm m have lo: "(z - 1) * p < n"
    by (simp add: algebra_simps)
  from zm m have hi: "n \<le> z * p"
    by (simp add: algebra_simps)
  have p: "0 < real_of_int p" using assms by simp
  from lo have "real_of_int ((z - 1) * p) < real_of_int n"
    by (simp only: of_int_less_iff)
  then have 1: "real_of_int z - 1 < real_of_int n / real_of_int p"
    using p by (simp add: pos_less_divide_eq)
  from hi have "real_of_int n \<le> real_of_int (z * p)"
    by (simp only: of_int_le_iff)
  then have 2: "real_of_int n / real_of_int p \<le> real_of_int z"
    using p by (simp add: pos_divide_le_eq)
  from 1 2 have "\<lceil>real_of_int n / real_of_int p\<rceil> = z"
    by (rule ceiling_unique)
  then show ?thesis by (simp add: z_def)
qed

text \<open>
  With a page size that is not positive no page ever fills, and all the records come
  as one page.
\<close>

lemma iter_loop_nonpositive:
  "mp \<le> 0 \<Longrightarrow>
   iter_loop mp page xs = (if page @ map snd xs = [] then [] else [page @ map snd xs])"
  by (induction mp page xs rule: iter_loop.induct) auto

text \<open>
  C6. For a book of \<open>N\<close> records and a page size \<open>P\<close> (a positive number), iterating the
  book yields exactly \<open>\<lceil>N / P\<rceil>\<close> pages; the pages, one after the other, are the
  records in key order; every page is non-empty and has at most \<open>P\<close> records; the last
  page has \<open>N mod P\<close> records when that is not zero and \<open>P\<close> otherwise; indexing with a
  page number below 1 (so also 0) or above the number of pages fails with a
  \<open>KeyError\<close>, and every other page number gives that page.
\<close>

theorem pagination:
  assumes "0 < max_page book"
  shows "int (length (AddressBook_iter book))
           = \<lceil>real_of_int (int (length (data book))) / real_of_int (max_page book)\<rceil>
       \<and> concat (AddressBook_iter book) = map snd (data book)
       \<and> (\<forall>page \<in> set (AddressBook_iter book). page \<noteq> [] \<and> int (length page) \<le> max_page book)
       \<and> (data book \<noteq> [] \<longrightarrow>
            AddressBook_iter book \<noteq> [] \<and>
            int (length (last (AddressBook_iter book)))
              = (if int (length (data book)) mod max_page book = 0 then max_page book
                 else int (length (data book)) mod max_page book))
       \<and> (\<forall>n. n < 1 \<or> int (length (AddressBook_iter book)) < n \<longrightarrow>
              (\<exists>m. AddressBook_getitem n book = Inl (KeyError m)))
       \<and> (\<forall>n. 1 \<le> n \<and> n \<le> int (length (AddressBook_iter book)) \<longrightarrow>
              AddressBook_getitem n book = Inr (AddressBook_iter book ! nat (n - 1)))"
proof -
  let ?P = "max_page book"
  let ?pages = "AddressBook_iter book"
  have pages: "?pages = iter_loop ?P [] (data book)"
    by (simp add: AddressBook_iter_def items_def)
  have start: "int (length ([] :: Record list)) < ?P"
    using assms by simp
  have "int (length ?pages) = (int (length (data book)) + ?P - 1) div ?P"
    unfolding pages using iter_loop_length [OF assms start, of "data book"] by simp
  then have c1: "int (length ?pages)
      = \<lceil>real_of_int (int (length (data book))) / real_of_int ?P\<rceil>"
    by (simp only: ceiling_div_pos [OF assms])
  have c2: "concat ?pages = map snd (data book)"
    unfolding pages by (simp add: iter_loop_concat)
  have c3: "\<forall>page \<in> set ?pages. page \<noteq> [] \<and> int (length page) \<le> ?P"
    unfolding pages using iter_loop_pages [OF start] by blast
  have c4: "data book \<noteq> [] \<longrightarrow>
            ?pages \<noteq> [] \<and>
            int (length (last ?pages))
              = (if int (length (data book)) mod ?P = 0 then ?P
                 else int (length (data book)) mod ?P)"
  proof
    assume "data book \<noteq> []"
    then have "[] \<noteq> ([] :: Record list) \<or> data book \<noteq> []" by simp
    from iter_loop_last [OF assms start this] show
      "?pages \<noteq> [] \<and>
            int (length (last ?pages))
              = (if int (length (data book)) mod ?P = 0 then ?P
                 else int (length (data book)) mod ?P)"
      unfolding pages by simp
  qed
  have c5: "\<forall>n. n < 1 \<or> int (length ?pages) < n \<longrightarrow>
              (\<exists>m. AddressBook_getitem n book = Inl (KeyError m))"
    by (auto simp: AddressBook_getitem_def getitem_loop_eq)
  have c6: "\<forall>n. 1 \<le> n \<and> n \<le> int (length ?pages) \<longrightarrow>
              AddressBook_getitem n book = Inr (?pages ! nat (n - 1))"
    by (auto simp: AddressBook_getitem_def getitem_loop_eq)
  from c1 c2 c3 c4 c5 c6 show ?thesis by blast
qed

theorem pagination_witness:
  "0 < max_page paged_book
   \<and> AddressBook_iter paged_book = [[ann, ben], [eve]]
   \<and> int (length (AddressBook_iter paged_book)) = \<lceil>real_of_int (int (length (data paged_book))) / real_of_int (max_page paged_book)\<rceil>
   \<and> int (length (last (AddressBook_iter paged_book))) = 1
   \<and> AddressBook_getitem 0 paged_book = Inl (KeyError ''index out of range in book, max page: 3'')
   \<and> AddressBook_getitem 3 paged_book = Inl (KeyError ''index out of range in book, max page: 3'')
   \<and> AddressBook_getitem 2 paged_book = Inr [eve]"
proof -
  have h: "0 < max_page paged_book"
    by (simp add: paged_book_def)
  have i: "AddressBook_iter paged_book = [[ann, ben], [eve]]"
    by (simp add: paged_book_def AddressBook_iter_def items_def)
  have g: "AddressBook_getitem 0 paged_book = Inl (KeyError ''index out of range in book, max page: 3'')
    \<and> AddressBook_getitem 3 paged_book = Inl (KeyError ''index out of range in book, max page: 3'')
    \<and> AddressBook_getitem 2 paged_book = Inr [eve]"
    by code_simp
  from pagination [OF h] have
    "int (length (AddressBook_iter paged_book)) = \<lceil>real_of_int (int (length (data paged_book))) / real_of_int (max_page paged_book)\<rceil>"
    by blast
  with h i g show ?thesis by simp
qed

section \<open>Loading\<close>

text \<open>
  C9. If the file read by \<open>load_from_file\<close> does not hold valid JSON, the function
  returns the message of the decode error and the book is exactly as it was before the
  call.
\<close>

theorem load_invalid_json_keeps_book:
  "fs filename = Some (Inl msg) \<Longrightarrow> load_from_file fs filename now book = (Inr (Some msg), book)"
  by (simp add: load_from_file_def)

theorem load_invalid_json_keeps_book_witness:
  "(Map.empty(''book.json'' \<mapsto> Inl ''Expecting value: line 1 column 1 (char 0)'')) ''book.json''
     = Some (Inl ''Expecting value: line 1 column 1 (char 0)'')
   \<and> load_from_file (Map.empty(''book.json'' \<mapsto> Inl ''Expecting value: line 1 column 1 (char 0)''))
        ''book.json'' example_now example_book
     = (Inr (Some ''Expecting value: line 1 column 1 (char 0)''), example_book)"
proof -
  let ?fs = "Map.empty(''book.json'' \<mapsto> Inl ''Expecting value: line 1 column 1 (char 0)'')
               :: filesystem"
  have h: "?fs ''book.json'' = Some (Inl ''Expecting value: line 1 column 1 (char 0)'')"
    by simp
  show ?thesis
    using h load_invalid_json_keeps_book
      [of ?fs "''book.json''" "''Expecting value: line 1 column 1 (char 0)''" example_now example_book]
    by simp
qed





lemma load_loop_failure:
  "load_loop now idx js acc = (Inr (Some msg), book') \<Longrightarrow>
   \<exists>k<length js.
     (\<exists>m. load_record now (js ! k) = Inl (ValueError m)
          \<and> msg = ''Validation error in '' @ str_nat idx @ '' record: '' @ m)
     \<and> (\<forall>i<k. \<exists>ro. load_record now (js ! i) = Inr ro)
     \<and> load_loop now idx (take k js) acc = (Inr None, book')"
proof (induction js arbitrary: acc)
  case Nil
  then show ?case by simp
next
  case (Cons j js)
  show ?case
  proof (cases "load_record now j")
    case (Inl e)
    with Cons.prems obtain m where "e = ValueError m"
      "msg = ''Validation error in '' @ str_nat idx @ '' record: '' @ m" "book' = acc"
      by (cases e) auto
    with Inl have "(\<exists>m. load_record now ((j # js) ! 0) = Inl (ValueError m)
          \<and> msg = ''Validation error in '' @ str_nat idx @ '' record: '' @ m)
     \<and> (\<forall>i<0. \<exists>ro. load_record now ((j # js) ! i) = Inr ro)
     \<and> load_loop now idx (take 0 (j # js)) acc = (Inr None, book')"
      by simp
    then show ?thesis by blast
  next
    case (Inr ro)
    define acc' where "acc' = (case ro of None \<Rightarrow> acc | Some r \<Rightarrow> add_record r acc)"
    have step: "load_loop now idx (j # js') acc = load_loop now idx js' acc'" for js'
      using Inr by (simp add: acc'_def split: option.splits)
    from Cons.prems have "load_loop now idx js acc' = (Inr (Some msg), book')"
      by (simp only: step)
    from Cons.IH [OF this] obtain k where k: "k < length js"
      "\<exists>m. load_record now (js ! k) = Inl (ValueError m)
          \<and> msg = ''Validation error in '' @ str_nat idx @ '' record: '' @ m"
      "\<forall>i<k. \<exists>ro. load_record now (js ! i) = Inr ro"
      "load_loop now idx (take k js) acc' = (Inr None, book')"
      by blast
    have "\<forall>i<Suc k. \<exists>ro. load_record now ((j # js) ! i) = Inr ro"
    proof (intro allI impI)
      fix i assume "i < Suc k"
      then show "\<exists>ro. load_record now ((j # js) ! i) = Inr ro"
        using k(3) Inr by (cases i) simp_all
    qed
    moreover have "load_loop now idx (take (Suc k) (j # js)) acc = (Inr None, book')"
      using k(4) by (simp only: take_Suc_Cons step)
    moreover have "Suc k < length (j # js)" using k(1) by simp
    moreover have "\<exists>m. load_record now ((j # js) ! Suc k) = Inl (ValueError m)
          \<and> msg = ''Validation error in '' @ str_nat idx @ '' record: '' @ m"
      using k(2) by simp
    ultimately show ?thesis by blast
  qed
qed





text \<open>
  Whichever element fails, the returned message names index 0: \<open>record_index\<close> is never
  advanced.
\<close>

lemma load_error_names_index_0:
  assumes "fs filename = Some (Inr js)"
    and "load_from_file fs filename now book = (Inr (Some msg), book')"
  shows "\<exists>m. msg = ''Validation error in 0 record: '' @ m"
proof -
  from assms have "load_loop now 0 js (book\<lparr>data := []\<rparr>) = (Inr (Some msg), book')"
    by (simp add: load_from_file_def)
  from load_loop_failure [OF this] obtain m where
    "msg = ''Validation error in '' @ str_nat 0 @ '' record: '' @ m"
    by blast
  moreover have "str_nat 0 = ''0''" by code_simp
  ultimately show ?thesis by simp
qed

text \<open>
  C3. When the element at index \<open>k\<close> fails validation, the message should report \<open>k\<close>
  (or \<open>k + 1\<close>). In the example file the first two elements are rebuilt, the third
  (index 2) has a birthday in the future, and the message reports index 0.
\<close>

theorem load_error_reports_index_0:
  "load_record example_now (example_json ! 0) = Inr (Some ann)
   \<and> load_record example_now (example_json ! 1) = Inr (Some ben)
   \<and> load_record example_now (example_json ! 2) = Inl (ValueError ''Birthday cannot be than now'')
   \<and> fst (load_from_file example_fs ''book.json'' example_now (AddressBook_init None))
       = Inr (Some ''Validation error in 0 record: Birthday cannot be than now'')"
  by code_simp

section \<open>Saving and loading again\<close>

text \<open>
  \<open>add_record\<close> keeps the keys distinct and stores each record under its name.
\<close>

lemma add_record_invariant:
  assumes "distinct (map fst (data book))"
    and "\<forall>(k, r) \<in> set (data book). k = name_value (name r)"
  shows "distinct (map fst (data (add_record r' book)))
       \<and> (\<forall>(k, r) \<in> set (data (add_record r' book)). k = name_value (name r))"
proof (cases "name_value (name r') \<in> fst ` set (data book)")
  case True
  then obtain i where i: "i < length (data book)" "fst (data book ! i) = name_value (name r')"
    by (auto simp: in_set_conv_nth)
  have "data (add_record r' book) = (data book)[i := (name_value (name r'), r')]"
    using assms(1) i by (simp add: add_record_def dict_set_at)
  moreover have "set ((data book)[i := (name_value (name r'), r')])
      \<subseteq> insert (name_value (name r'), r') (set (data book))"
    by (rule set_update_subset_insert)
  ultimately show ?thesis
    using assms dict_set_distinct [of "data book" "name_value (name r')" r']
    by (auto simp: add_record_def)
next
  case False
  then show ?thesis
    using assms by (auto simp: add_record_def dict_set_keys_absent)
qed

lemma Record_init_ok:
  "validate_name v = Inr True \<Longrightarrow>
   Record_init v None = Inr \<lparr>name = \<lparr>name_value = v\<rparr>, phones = [], birthday = None\<rparr>"
  by (simp add: Record_init_def NameField_init_def NameField_set_value_def)

lemma PhoneField_init_ok:
  "validate_phone v = Inr True \<Longrightarrow> PhoneField_init v = Inr \<lparr>phone_value = v\<rparr>"
  by (simp add: PhoneField_init_def PhoneField_set_value_def)

lemma add_phones_ok:
  "\<forall>p \<in> set ps. validate_phone (phone_value p) = Inr True \<Longrightarrow>
   add_phones (map phone_value ps) r = Inr (r\<lparr>phones := phones r @ ps\<rparr>)"
proof (induction ps arbitrary: r)
  case Nil
  then show ?case by simp
next
  case (Cons p ps)
  then have "PhoneField_init (phone_value p) = Inr p"
    by (simp add: PhoneField_init_ok)
  with Cons show ?case by (simp add: add_phone_def)
qed

lemma validate_birthday_verdict:
  "fst (validate_birthday now v f) = fst (validate_birthday now v g)"
  by (simp add: validate_birthday_def split: option.splits sum.splits)

lemma BirthDayField_init_ok:
  assumes "fst (validate_birthday now v f) = Inr True"
  shows "\<exists>f'. BirthDayField_init now v = Inr f' \<and> bd_value f' = v"
proof -
  let ?g = "\<lparr>bd_value = None, bd_date = None\<rparr>"
  from assms have "fst (validate_birthday now v ?g) = Inr True"
    by (simp add: validate_birthday_verdict [of now v ?g f])
  then obtain g' where "validate_birthday now v ?g = (Inr True, g')"
    by (cases "validate_birthday now v ?g") simp
  then show ?thesis
    by (simp add: BirthDayField_init_def BirthDayField_set_value_def)
qed

lemma load_record_saved:
  assumes "validate_name (name_value (name r)) = Inr True"
    and "\<forall>p \<in> set (phones r). validate_phone (phone_value p) = Inr True"
    and "\<forall>b. birthday r = Some b \<longrightarrow> fst (validate_birthday now (bd_value b) b) = Inr True"
  shows "\<exists>r'. load_record now (get_json_data r) = Inr (Some r')
            \<and> name r' = name r \<and> phones r' = phones r
            \<and> rel_option (\<lambda>f' b. BirthDayField_init now (bd_value b) = Inr f' \<and> bd_value f' = bd_value b)
                 (birthday r') (birthday r)"
proof -
  let ?r0 = "\<lparr>name = name r, phones = [], birthday = None\<rparr>"
  have nm: "\<lparr>name_value = name_value (name r)\<rparr> = name r" by simp
  have init: "Record_init (name_value (name r)) None = Inr ?r0"
    using Record_init_ok [OF assms(1)] by (simp only: nm)
  show ?thesis
  proof (cases "birthday r")
    case None
    have "add_phones (map phone_value (phones r)) ?r0 = Inr (?r0\<lparr>phones := phones ?r0 @ phones r\<rparr>)"
      using assms(2) by (rule add_phones_ok)
    with None init nm show ?thesis
      by (simp add: load_record_def get_json_data_def)
  next
    case (Some b)
    with assms(3) have "fst (validate_birthday now (bd_value b) b) = Inr True" by simp
    then obtain f' where f': "BirthDayField_init now (bd_value b) = Inr f'" "bd_value f' = bd_value b"
      using BirthDayField_init_ok by blast
    let ?r1 = "?r0\<lparr>birthday := Some f'\<rparr>"
    have "add_phones (map phone_value (phones r)) ?r1 = Inr (?r1\<lparr>phones := phones ?r1 @ phones r\<rparr>)"
      using assms(2) by (rule add_phones_ok)
    with Some init nm f' show ?thesis
      by (simp add: load_record_def get_json_data_def)
  qed
qed

lemma load_loop_saved:
  assumes "distinct (map fst d)"
    and "fst ` set d \<inter> fst ` set (data acc) = {}"
    and "\<forall>(k, r) \<in> set d. k = name_value (name r)"
    and "\<forall>(k, r) \<in> set d. validate_name (name_value (name r)) = Inr True"
    and "\<forall>(k, r) \<in> set d. \<forall>p \<in> set (phones r). validate_phone (phone_value p) = Inr True"
    and "\<forall>(k, r) \<in> set d. \<forall>b. birthday r = Some b \<longrightarrow> fst (validate_birthday now (bd_value b) b) = Inr True"
  shows "\<exists>d'. load_loop now idx (map (\<lambda>(k, r). get_json_data r) d) acc
                 = (Inr None, acc\<lparr>data := data acc @ d'\<rparr>)
             \<and> list_all2 (reloaded now) d' d"
  using assms
proof (induction d arbitrary: acc)
  case Nil
  then show ?case by simp
next
  case (Cons x d)
  obtain k r where x: "x = (k, r)" by (cases x)
  from Cons.prems x have k: "k = name_value (name r)" by simp
  from Cons.prems x obtain r' where r':
    "load_record now (get_json_data r) = Inr (Some r')" "name r' = name r"
    "phones r' = phones r"
    "rel_option (\<lambda>f' b. BirthDayField_init now (bd_value b) = Inr f' \<and> bd_value f' = bd_value b)
       (birthday r') (birthday r)"
    using load_record_saved [of r now] by auto
  from Cons.prems(2) x have "k \<notin> fst ` set (data acc)" by auto
  with k r' have add: "add_record r' acc = acc\<lparr>data := data acc @ [(k, r')]\<rparr>"
    by (simp add: add_record_def dict_set_keys_absent)
  let ?acc = "acc\<lparr>data := data acc @ [(k, r')]\<rparr>"
  have 1: "distinct (map fst d)" using Cons.prems(1) by simp
  have 2: "fst ` set d \<inter> fst ` set (data ?acc) = {}"
    using Cons.prems(1,2) x by auto
  from Cons.IH [OF 1 2] Cons.prems(3-6) obtain d' where d':
    "load_loop now idx (map (\<lambda>(k, r). get_json_data r) d) ?acc = (Inr None, ?acc\<lparr>data := data ?acc @ d'\<rparr>)"
    "list_all2 (reloaded now) d' d"
    by auto
  have "load_loop now idx (map (\<lambda>(k, r). get_json_data r) (x # d)) acc
          = (Inr None, acc\<lparr>data := data acc @ ((k, r') # d')\<rparr>)"
    using x r'(1) add d'(1) by simp
  moreover have "list_all2 (reloaded now) ((k, r') # d') (x # d)"
    using x d'(2) r'(2,3,4) by (simp add: reloaded_def)
  ultimately show ?case by blast
qed

lemma reloaded_same_fields:
  "list_all2 (reloaded now) d' d \<Longrightarrow>
   map (\<lambda>(k, r). (k, name r, phones r, map_option bd_value (birthday r))) d'
     = map (\<lambda>(k, r). (k, name r, phones r, map_option bd_value (birthday r))) d"
proof (induction rule: list_all2_induct)
  case Nil
  show ?case by simp
next
  case (Cons x' d' x d)
  from Cons(1) have "map_option bd_value (birthday (snd x')) = map_option bd_value (birthday (snd x))"
    by (cases "birthday (snd x')"; cases "birthday (snd x)") (simp_all add: reloaded_def)
  with Cons show ?case
    by (simp add: reloaded_def case_prod_beta)
qed

lemma reloaded_identical:
  "list_all2 (reloaded now) d' d \<Longrightarrow>
   \<forall>(k, r) \<in> set d. \<forall>b. birthday r = Some b \<longrightarrow> BirthDayField_init now (bd_value b) = Inr b \<Longrightarrow>
   d' = d"
proof (induction rule: list_all2_induct)
  case Nil
  show ?case by simp
next
  case (Cons x' d' x d)
  from Cons(4) have bx: "\<forall>b. birthday (snd x) = Some b \<longrightarrow> BirthDayField_init now (bd_value b) = Inr b"
    by (simp add: case_prod_beta)
  from Cons(1) have rel:
    "rel_option (\<lambda>f' b. BirthDayField_init now (bd_value b) = Inr f' \<and> bd_value f' = bd_value b)
       (birthday (snd x')) (birthday (snd x))"
    by (simp add: reloaded_def)
  have "birthday (snd x') = birthday (snd x)"
  proof (cases "birthday (snd x)")
    case None
    with rel show ?thesis by (cases "birthday (snd x')") simp_all
  next
    case (Some b)
    with rel obtain f' where f': "birthday (snd x') = Some f'"
      "BirthDayField_init now (bd_value b) = Inr f'"
      by (cases "birthday (snd x')") simp_all
    from bx Some have "BirthDayField_init now (bd_value b) = Inr b" by blast
    with f'(2) have "f' = b" by simp
    with f'(1) Some show ?thesis by simp
  qed
  with Cons(1) have "snd x' = snd x" "fst x' = fst x"
    by (simp_all add: reloaded_def)
  then have "x' = x" by (simp add: prod_eq_iff)
  moreover from Cons(3,4) have "d' = d" by simp
  ultimately show ?case by simp
qed

text \<open>
  A birthday that passed the validator keeps passing it at any later time.
\<close>

lemma dt_gt_later:
  "\<not> dt_gt d now \<Longrightarrow> \<not> dt_gt now now' \<Longrightarrow> \<not> dt_gt d now'"
  unfolding dt_gt_def by linarith

lemma birthday_stays_valid:
  "fst (validate_birthday now v f) = Inr True \<Longrightarrow> \<not> dt_gt now now' \<Longrightarrow>
   fst (validate_birthday now' v f) = Inr True"
  by (auto simp: validate_birthday_def split: option.splits if_splits sum.splits dest: dt_gt_later)

text \<open>
  C7. For a book whose records all hold valid fields (each name, each phone and each
  birthday value passes its validator at the time of loading; the keys are the
  records' names), saving the book and loading the file into any book succeeds. The
  loaded book has the same keys in the same order, and under each key a record with
  the same name field, the same list of phone fields and the same birthday value (or
  no birthday where there was none). When, moreover, every birthday field of the book
  is what \<open>BirthDayField\<close> builds from its value, the loaded records are the saved
  records themselves. The page size of the destination is kept.
\<close>

theorem save_load_round_trip:
  assumes "distinct (map fst (data book))"
    and "\<forall>(k, r) \<in> set (data book). k = name_value (name r)"
    and "\<forall>(k, r) \<in> set (data book). validate_name (name_value (name r)) = Inr True"
    and "\<forall>(k, r) \<in> set (data book). \<forall>p \<in> set (phones r). validate_phone (phone_value p) = Inr True"
    and "\<forall>(k, r) \<in> set (data book). \<forall>b. birthday r = Some b \<longrightarrow>
           fst (validate_birthday now (bd_value b) b) = Inr True"
  shows "\<exists>book'. load_from_file (save_to_file filename book fs) filename now book0 = (Inr None, book')
           \<and> map (\<lambda>(k, r). (k, name r, phones r, map_option bd_value (birthday r))) (data book')
               = map (\<lambda>(k, r). (k, name r, phones r, map_option bd_value (birthday r))) (data book)
           \<and> ((\<forall>(k, r) \<in> set (data book). \<forall>b. birthday r = Some b \<longrightarrow>
                  BirthDayField_init now (bd_value b) = Inr b) \<longrightarrow> data book' = data book)
           \<and> max_page book' = max_page book0"
proof -
  let ?acc = "book0\<lparr>data := []\<rparr>"
  have "fst ` set (data book) \<inter> fst ` set (data ?acc) = {}" by simp
  from load_loop_saved [OF assms(1) this assms(2-5), of 0] obtain d' where d':
    "load_loop now 0 (map (\<lambda>(k, r). get_json_data r) (data book)) ?acc = (Inr None, ?acc\<lparr>data := data ?acc @ d'\<rparr>)"
    "list_all2 (reloaded now) d' (data book)"
    by blast
  have l: "load_from_file (save_to_file filename book fs) filename now book0
          = (Inr None, book0\<lparr>data := d'\<rparr>)"
    using d'(1) by (simp add: load_from_file_def save_to_file_def)
  have f: "map (\<lambda>(k, r). (k, name r, phones r, map_option bd_value (birthday r))) d'
         = map (\<lambda>(k, r). (k, name r, phones r, map_option bd_value (birthday r))) (data book)"
    using d'(2) by (rule reloaded_same_fields)
  have i: "(\<forall>(k, r) \<in> set (data book). \<forall>b. birthday r = Some b \<longrightarrow>
                  BirthDayField_init now (bd_value b) = Inr b) \<longrightarrow> d' = data book"
    using reloaded_identical [OF d'(2)] by blast
  from l f i show ?thesis by simp
qed

theorem save_load_round_trip_witness:
  "load_from_file (save_to_file ''book.json'' example_book Map.empty) ''book.json''
          example_now eve_book = (Inr None, example_book)
   \<and> map (\<lambda>(k, r). (k, name r, phones r, map_option bd_value (birthday r))) (data example_book)
       = [(Some ''Ann'', name ann, phones ann, None),
          (Some ''Ben'', name ben, phones ben, Some (Some ''1990-05-17''))]"
proof -
  have h1: "distinct (map fst (data example_book))"
    by (simp add: example_book_def)
  have h2: "\<forall>(k, r) \<in> set (data example_book). k = name_value (name r)"
    by (simp add: example_book_def ann_def ben_def)
  have h3: "\<forall>(k, r) \<in> set (data example_book). validate_name (name_value (name r)) = Inr True"
    by code_simp
  have h4: "\<forall>(k, r) \<in> set (data example_book). \<forall>p \<in> set (phones r).
              validate_phone (phone_value p) = Inr True"
    by code_simp
  have v: "fst (validate_birthday example_now (Some ''1990-05-17'') (the (birthday ben))) = Inr True"
    by code_simp
  have h5: "\<forall>(k, r) \<in> set (data example_book). \<forall>b. birthday r = Some b \<longrightarrow>
              fst (validate_birthday example_now (bd_value b) b) = Inr True"
    using v by (auto simp: example_book_def ann_def ben_def)
  have w: "BirthDayField_init example_now (Some ''1990-05-17'') = Inr (the (birthday ben))"
    by code_simp
  have h6: "\<forall>(k, r) \<in> set (data example_book). \<forall>b. birthday r = Some b \<longrightarrow>
              BirthDayField_init example_now (bd_value b) = Inr b"
    using w by (auto simp: example_book_def ann_def ben_def)
  from save_load_round_trip [OF h1 h2 h3 h4 h5, of "''book.json''" Map.empty eve_book]
  obtain book' where b:
    "load_from_file (save_to_file ''book.json'' example_book Map.empty) ''book.json''
       example_now eve_book = (Inr None, book')"
    "(\<forall>(k, r) \<in> set (data example_book). \<forall>b. birthday r = Some b \<longrightarrow>
         BirthDayField_init example_now (bd_value b) = Inr b) \<longrightarrow> data book' = data example_book"
    "max_page book' = max_page eve_book"
    by blast
  from b(2) h6 have "data book' = data example_book" by blast
  with b(3) have "book' = example_book"
    by (simp add: example_book_def eve_book_def)
  with b(1) show ?thesis
    by (simp add: example_book_def ann_def ben_def)
qed

end
